theory Spec2Isabelle
  imports Main "HOL-Library.Sublist" "HOL-Library.Char_ord" "HOL-Library.List_Lexorder"
begin

section \<open>Browser scripts: class lists\<close>

text \<open>
  An element's \<open>classList\<close> is a DOMTokenList: an ordered set of tokens. It is modelled as a
  list of strings. \<open>classList.toggle(token)\<close> removes the token when it is present and appends
  it otherwise; \<open>classList.toggle(token, force)\<close> adds the token when \<open>force\<close> is true (keeping
  the list when it is already there) and removes it when \<open>force\<close> is false.
\<close>

type_synonym class_list = "string list"

definition toggle :: "string \<Rightarrow> class_list \<Rightarrow> class_list" where
  "toggle tok cl = (if tok \<in> set cl then removeAll tok cl else cl @ [tok])"

definition toggle_force :: "string \<Rightarrow> bool \<Rightarrow> class_list \<Rightarrow> class_list" where
  "toggle_force tok force cl =
     (if force then (if tok \<in> set cl then cl else cl @ [tok]) else removeAll tok cl)"

lemma set_toggle: "set (toggle tok cl) = (if tok \<in> set cl then set cl - {tok} else insert tok (set cl))"
  by (simp add: toggle_def)

lemma toggle_twice_set: "set (toggle tok (toggle tok cl)) = set cl"
  by (auto simp: set_toggle)

lemma toggle_other_mem: "a \<noteq> tok \<Longrightarrow> a \<in> set (toggle tok cl) \<longleftrightarrow> a \<in> set cl"
  by (auto simp: set_toggle)

lemma toggle_force_mem:
  "a \<in> set (toggle_force tok force cl) \<longleftrightarrow> (if a = tok then force else a \<in> set cl)"
  by (auto simp: toggle_force_def)

section \<open>Password visibility toggle (password\_toggle.js)\<close>

text \<open>
  The click handler of \<open>togglePassword\<close> reads and writes \<open>passwordField.type\<close> and toggles two
  classes on the first \<open>i\<close> element inside the button. \<open>querySelector\<close> returns \<open>null\<close> when the
  button holds no such element; the call on \<open>null\<close> then throws a TypeError, after the type has
  already been written. The handler of \<open>toggleConfirmPassword\<close> is the same code on the other
  field and the other button, so one definition serves both. \<open>passwordField_type\<close> is the
  field's \<open>type\<close> and \<open>icon\<close> the class list of the button's \<open>i\<close> element, when it has one.
\<close>

datatype js_error = TypeError

record password_form =
  passwordField_type :: string
  icon :: "class_list option"

definition togglePassword_click :: "password_form \<Rightarrow> js_error \<times> password_form + password_form" where
  "togglePassword_click f =
     (let type = (if passwordField_type f = ''password'' then ''text'' else ''password'');
          f1 = f\<lparr>passwordField_type := type\<rparr>
      in case icon f1 of
           None \<Rightarrow> Inl (TypeError, f1)
         | Some cl \<Rightarrow> Inr (f1\<lparr>icon := Some (toggle ''fa-eye-slash'' (toggle ''fa-eye'' cl))\<rparr>))"

text \<open>
  Two clicks in a row. An exception thrown by the first click's handler is reported by the
  browser and ends that handler only; the form stays as the handler left it, and the second
  click runs the handler on it.
\<close>

definition click_twice :: "password_form \<Rightarrow> js_error \<times> password_form + password_form" where
  "click_twice f =
     (case togglePassword_click f of
        Inl (e, f1) \<Rightarrow> togglePassword_click f1
      | Inr f1 \<Rightarrow> togglePassword_click f1)"

lemma toggle_pair_twice_set:
  "set (toggle ''fa-eye-slash'' (toggle ''fa-eye'' (toggle ''fa-eye-slash'' (toggle ''fa-eye'' cl)))) = set cl"
  by (auto simp: set_toggle)

text \<open>
  Claim C9. With the icon element present, one click sends type \<open>password\<close> to \<open>text\<close> and every
  other type to \<open>password\<close>; when the field starts as \<open>password\<close> or \<open>text\<close>, two clicks
  give back the starting type and the starting set of icon classes, in particular the
  starting presence of \<open>fa-eye\<close> and of \<open>fa-eye-slash\<close>.
\<close>

theorem password_toggle_involution:
  assumes "icon f = Some cl"
  shows "\<exists>f1 f2. togglePassword_click f = Inr f1 \<and> click_twice f = Inr f2
           \<and> passwordField_type f1 = (if passwordField_type f = ''password'' then ''text'' else ''password'')
           \<and> (passwordField_type f = ''password'' \<or> passwordField_type f = ''text'' \<longrightarrow>
                passwordField_type f2 = passwordField_type f
                \<and> (\<exists>cl2. icon f2 = Some cl2 \<and> set cl2 = set cl
                     \<and> (''fa-eye'' \<in> set cl2 \<longleftrightarrow> ''fa-eye'' \<in> set cl)
                     \<and> (''fa-eye-slash'' \<in> set cl2 \<longleftrightarrow> ''fa-eye-slash'' \<in> set cl)))"
  using assms
  by (simp add: togglePassword_click_def click_twice_def Let_def toggle_pair_twice_set)

theorem password_toggle_involution_witness:
  "togglePassword_click \<lparr>passwordField_type = ''password'', icon = Some [''fa'', ''fa-eye'']\<rparr>
     = Inr \<lparr>passwordField_type = ''text'', icon = Some [''fa'', ''fa-eye-slash'']\<rparr>
   \<and> (\<exists>f2. click_twice \<lparr>passwordField_type = ''password'', icon = Some [''fa'', ''fa-eye'']\<rparr> = Inr f2
        \<and> passwordField_type f2 = ''password''
        \<and> (\<exists>cl2. icon f2 = Some cl2 \<and> set cl2 = set [''fa'', ''fa-eye'']))"
  using password_toggle_involution
    [of "\<lparr>passwordField_type = ''password'', icon = Some [''fa'', ''fa-eye'']\<rparr>" "[''fa'', ''fa-eye'']"]
  by (auto simp: togglePassword_click_def toggle_def Let_def)

section \<open>Hero slideshow\<close>

text \<open>
  \<open>slides\<close> is the node list of the \<open>.hero-slide\<close> elements, each with its class list, and
  \<open>currentSlide\<close> the counter of the closure, started at 0. JavaScript's \<open>%\<close> gives NaN for
  a zero divisor, which happens when the page has no slide; NaN is equal to no index.
  \<open>showSlide\<close> walks the slides with their positions and forces the two opacity classes;
  \<open>nextSlide\<close> is what the interval timer calls, and \<open>ticks n\<close> is n such calls.
\<close>

datatype js_number = Num nat | NaN

fun js_succ :: "js_number \<Rightarrow> js_number" where
  "js_succ (Num k) = Num (Suc k)"
| "js_succ NaN = NaN"

fun js_mod :: "js_number \<Rightarrow> nat \<Rightarrow> js_number" where
  "js_mod (Num k) n = (if n = 0 then NaN else Num (k mod n))"
| "js_mod NaN n = NaN"

record slideshow =
  slides :: "class_list list"
  currentSlide :: js_number

definition show_one :: "js_number \<Rightarrow> nat \<times> class_list \<Rightarrow> class_list" where
  "show_one index = (\<lambda>(i, slide).
     toggle_force ''opacity-0'' (Num i \<noteq> index) (toggle_force ''opacity-100'' (Num i = index) slide))"

definition showSlide :: "js_number \<Rightarrow> slideshow \<Rightarrow> slideshow" where
  "showSlide index s = s\<lparr>slides := map (show_one index) (enumerate 0 (slides s))\<rparr>"

definition nextSlide :: "slideshow \<Rightarrow> slideshow" where
  "nextSlide s =
     (let s1 = s\<lparr>currentSlide := js_mod (js_succ (currentSlide s)) (length (slides s))\<rparr>
      in showSlide (currentSlide s1) s1)"

definition hero_init :: "class_list list \<Rightarrow> slideshow" where
  "hero_init sl = \<lparr>slides = sl, currentSlide = Num 0\<rparr>"

fun ticks :: "nat \<Rightarrow> slideshow \<Rightarrow> slideshow" where
  "ticks 0 s = s"
| "ticks (Suc n) s = ticks n (nextSlide s)"

definition one_visible :: "slideshow \<Rightarrow> bool" where
  "one_visible s = (\<exists>k < length (slides s). currentSlide s = Num k
      \<and> (\<forall>i < length (slides s).
            (''opacity-100'' \<in> set (slides s ! i) \<longleftrightarrow> i = k)
          \<and> (''opacity-0'' \<in> set (slides s ! i) \<longleftrightarrow> i \<noteq> k)))"

lemma length_nextSlide: "length (slides (nextSlide s)) = length (slides s)"
  by (simp add: nextSlide_def showSlide_def Let_def)

lemma nextSlide_visible:
  assumes "slides s \<noteq> []" "currentSlide s = Num c"
  shows "one_visible (nextSlide s)"
  using assms
  by (auto simp: one_visible_def nextSlide_def showSlide_def Let_def show_one_def
      toggle_force_mem nth_enumerate_eq)

lemma one_visible_ticks:
  "one_visible s \<Longrightarrow> one_visible (ticks n s)"
proof (induction n arbitrary: s)
  case 0
  then show ?case by simp
next
  case (Suc n)
  from Suc.prems obtain k where "k < length (slides s)" "currentSlide s = Num k"
    by (auto simp: one_visible_def)
  then have "one_visible (nextSlide s)"
    by (intro nextSlide_visible) auto
  then show ?case using Suc.IH by simp
qed

lemma length_ticks: "length (slides (ticks n s)) = length (slides s)"
  by (induction n arbitrary: s) (simp_all add: length_nextSlide)

text \<open>
  Claim C10. For a non-empty list of slides and after every tick of \<open>nextSlide\<close> (any
  positive number of ticks from the initial state), \<open>currentSlide\<close> is an index below
  \<open>slides.length\<close>, the number of slides is unchanged, the slide at that index is the only one
  carrying \<open>opacity-100\<close>, and every other slide carries \<open>opacity-0\<close> while that one does not.
\<close>

theorem hero_slideshow_invariant:
  assumes "sl \<noteq> []" "0 < n"
  shows "\<exists>k. currentSlide (ticks n (hero_init sl)) = Num k
           \<and> k < length sl
           \<and> length (slides (ticks n (hero_init sl))) = length sl
           \<and> (\<forall>i < length sl.
                 (''opacity-100'' \<in> set (slides (ticks n (hero_init sl)) ! i) \<longleftrightarrow> i = k)
               \<and> (''opacity-0'' \<in> set (slides (ticks n (hero_init sl)) ! i) \<longleftrightarrow> i \<noteq> k))"
proof -
  obtain m where n: "n = Suc m" using assms(2) by (cases n) auto
  have "one_visible (nextSlide (hero_init sl))"
    using assms(1) by (intro nextSlide_visible[where c=0]) (simp_all add: hero_init_def)
  then have "one_visible (ticks n (hero_init sl))"
    unfolding n by (simp add: one_visible_ticks)
  moreover have "length (slides (ticks n (hero_init sl))) = length sl"
    by (simp add: length_ticks hero_init_def)
  ultimately show ?thesis
    by (auto simp: one_visible_def)
qed

text \<open>
  A run of four ticks over three slides, the first of which starts visible.
\<close>

theorem hero_slideshow_invariant_witness:
  "[[''hero-slide'', ''opacity-100''], [''hero-slide'', ''opacity-0''], [''opacity-0'']] \<noteq> []
   \<and> (0::nat) < 4
   \<and> ticks 4 (hero_init [[''hero-slide'', ''opacity-100''], [''hero-slide'', ''opacity-0''], [''opacity-0'']])
     = \<lparr>slides = [[''hero-slide'', ''opacity-0''], [''hero-slide'', ''opacity-100''], [''opacity-0'']],
        currentSlide = Num 1\<rparr>"
proof -
  have run: "ticks 4 (hero_init [[''hero-slide'', ''opacity-100''], [''hero-slide'', ''opacity-0''], [''opacity-0'']])
     = \<lparr>slides = [[''hero-slide'', ''opacity-0''], [''hero-slide'', ''opacity-100''], [''opacity-0'']],
        currentSlide = Num 1\<rparr>"
    by code_simp
  show ?thesis
    using run hero_slideshow_invariant
      [of "[[''hero-slide'', ''opacity-100''], [''hero-slide'', ''opacity-0''], [''opacity-0'']]" 4]
    by simp
qed

section \<open>Base branch check (check\_base-branch.yml)\<close>

text \<open>
  The step's script reads the base and head branch names of the pull request and exits with
  status 1 on a violation; when no branch of the \<open>if\<close> runs, the script ends with status 0.
  Inside \<open>[[ ]]\<close> a quoted right-hand side of \<open>==\<close>, \<open>!=\<close> and \<open>=~\<close> is compared as a literal
  string, and \<open>=~\<close> is unanchored, so the test on the development branch asks whether
  the head name, with a space on each side, occurs inside the allowed names joined by spaces
  (what the quoted array expansion gives there), again with a space on each side.
  The two names are the inputs of the model; \<open>check_base_branch\<close> is the exit status.
\<close>

definition allowed_head_branches :: "string list" where
  "allowed_head_branches =
     [''development/core'', ''development/parent'', ''development/teacher'', ''development/student'']"

fun array_at :: "string list \<Rightarrow> string" where
  "array_at [] = []"
| "array_at [w] = w"
| "array_at (w # ws) = w @ '' '' @ array_at ws"

definition check_base_branch :: "string \<Rightarrow> string \<Rightarrow> nat" where
  "check_base_branch base_branch head_branch =
     (if base_branch = ''production'' then
        (if head_branch \<noteq> ''dev'' then 1 else 0)
      else if base_branch = ''dev'' then
        (if \<not> sublist ('' '' @ head_branch @ '' '') ('' '' @ array_at allowed_head_branches @ '' '')
         then 1 else 0)
      else 0)"

text \<open>
  The policy in the words of the claim: production takes pull requests from \<open>dev\<close> only, the
  development branch takes any head that has one of the four names as a prefix, and every
  other base branch takes anything.
\<close>

definition branch_policy_claimed :: "string \<Rightarrow> string \<Rightarrow> bool" where
  "branch_policy_claimed base_branch head_branch =
     (if base_branch = ''production'' then head_branch = ''dev''
      else if base_branch = ''dev'' then list_ex (\<lambda>a. prefix a head_branch) allowed_head_branches
      else True)"

lemma prefix_word:
  assumes "CHR '' '' \<notin> set h" "CHR '' '' \<notin> set w"
  shows "prefix (h @ CHR '' '' # r) (w @ CHR '' '' # r') \<longleftrightarrow> h = w \<and> prefix r r'"
  using assms
proof (induction h arbitrary: w)
  case Nil
  then show ?case by (cases w) auto
next
  case (Cons a h)
  then show ?case by (cases w) auto
qed

lemma sublist_skip_word:
  assumes "CHR '' '' \<notin> set w"
  shows "sublist (CHR '' '' # xs) (w @ ys) \<longleftrightarrow> sublist (CHR '' '' # xs) ys"
  using assms
  by (induction w) (auto simp: sublist_Cons_right)

lemma spaced_words:
  assumes "CHR '' '' \<notin> set h" "\<forall>w \<in> set ws. CHR '' '' \<notin> set w"
  shows "sublist (CHR '' '' # h @ '' '') (concat (map (\<lambda>w. CHR '' '' # w) ws) @ '' '') \<longleftrightarrow> h \<in> set ws"
  using assms
proof (induction ws)
  case Nil
  then show ?case by (simp add: sublist_Cons_right)
next
  case (Cons w ws)
  let ?rest = "concat (map (\<lambda>w. CHR '' '' # w) ws) @ '' ''"
  have rest: "\<exists>r. ?rest = CHR '' '' # r"
    by (cases ws) auto
  then obtain r where r: "?rest = CHR '' '' # r" by blast
  have "sublist (CHR '' '' # h @ '' '') (CHR '' '' # w @ ?rest)
        \<longleftrightarrow> prefix (h @ '' '') (w @ ?rest) \<or> sublist (CHR '' '' # h @ '' '') (w @ ?rest)"
    by (simp add: sublist_Cons_right)
  also have "prefix (h @ '' '') (w @ ?rest) \<longleftrightarrow> h = w"
    using Cons.prems prefix_word[of h w "[]" r] unfolding r by simp
  also have "sublist (CHR '' '' # h @ '' '') (w @ ?rest) \<longleftrightarrow> sublist (CHR '' '' # h @ '' '') ?rest"
    using Cons.prems by (simp add: sublist_skip_word)
  also have "\<dots> \<longleftrightarrow> h \<in> set ws"
    using Cons by simp
  finally show ?case by auto
qed

lemma allowed_line:
  "'' '' @ array_at allowed_head_branches @ '' ''
     = concat (map (\<lambda>w. CHR '' '' # w) allowed_head_branches) @ '' ''"
  by (simp add: allowed_head_branches_def)

lemma head_branch_listed:
  assumes "CHR '' '' \<notin> set head_branch"
  shows "sublist ('' '' @ head_branch @ '' '') ('' '' @ array_at allowed_head_branches @ '' '')
         \<longleftrightarrow> head_branch \<in> set allowed_head_branches"
proof -
  have "\<forall>w \<in> set allowed_head_branches. CHR '' '' \<notin> set w"
    by (simp add: allowed_head_branches_def)
  with assms show ?thesis
    unfolding allowed_line using spaced_words[of head_branch allowed_head_branches] by simp
qed

text \<open>
  Claim C2 as stated fails: a head branch that only starts with an allowed name is within the
  claimed policy, and the workflow rejects it.
\<close>

theorem base_branch_prefix_counterexample:
  "branch_policy_claimed ''dev'' ''development/core/login''
   \<and> check_base_branch ''dev'' ''development/core/login'' = 1"
  by code_simp

text \<open>
  Claim C2, amended. For a head branch name without a space (git allows none in a branch
  name), the workflow exits with status 0 exactly when the base branch is \<open>production\<close> and the
  head is \<open>dev\<close>, or the base branch is \<open>dev\<close> and the head is one of the four allowed names
  themselves, or the base branch is any other branch.
\<close>

theorem base_branch_exact:
  assumes "CHR '' '' \<notin> set head_branch"
  shows "check_base_branch base_branch head_branch = 0 \<longleftrightarrow>
          (if base_branch = ''production'' then head_branch = ''dev''
           else if base_branch = ''dev'' then head_branch \<in> set allowed_head_branches
           else True)"
  using head_branch_listed[OF assms] by (simp add: check_base_branch_def)

theorem base_branch_exact_witness:
  "CHR '' '' \<notin> set ''development/teacher''
   \<and> check_base_branch ''dev'' ''development/teacher'' = 0
   \<and> ''development/teacher'' \<in> set allowed_head_branches"
  using base_branch_exact[of "''development/teacher''" "''dev''"]
  by (simp add: allowed_head_branches_def)

section \<open>Migration reset (undo\_migrations.sh): files\<close>

text \<open>
  The script works in the project directory. The tree below it is a list of entries, each a
  path (the names from the project directory down) with what is found there: a directory or a
  regular file with its text. Looking a path up takes the first entry for it. The project
  directory itself is the empty path and always exists. Symbolic links are left out.
\<close>

type_synonym path = "string list"

datatype node = Dir | File string

type_synonym filesystem = "(path \<times> node) list"

definition is_file :: "filesystem \<Rightarrow> path \<Rightarrow> bool" where
  "is_file f p = (case map_of f p of Some (File _) \<Rightarrow> True | _ \<Rightarrow> False)"

definition is_dir :: "filesystem \<Rightarrow> path \<Rightarrow> bool" where
  "is_dir f p = (case map_of f p of Some Dir \<Rightarrow> True | _ \<Rightarrow> False)"

definition remove_entry :: "path \<Rightarrow> filesystem \<Rightarrow> filesystem" where
  "remove_entry p f = filter (\<lambda>(q, _). q \<noteq> p) f"

definition remove_tree :: "path \<Rightarrow> filesystem \<Rightarrow> filesystem" where
  "remove_tree p f = filter (\<lambda>(q, _). \<not> prefix p q) f"

text \<open>
  The three deletions of the script, each with its exit status. \<open>rm -f FILE\<close> removes a regular
  file, is satisfied when nothing is there, and refuses a directory. \<open>rm FILE\<close> fails when
  nothing is there. \<open>rm -rf DIR/\<close> removes a directory with all below it; the trailing slash
  makes it leave a regular file of that name alone, and \<open>-f\<close> keeps it quiet about that and
  about a missing target.
\<close>

definition rm_f :: "path \<Rightarrow> filesystem \<Rightarrow> nat \<times> filesystem" where
  "rm_f p f =
     (if is_file f p then (0, remove_entry p f)
      else if map_of f p = None then (0, f)
      else (1, f))"

definition rm_plain :: "path \<Rightarrow> filesystem \<Rightarrow> nat \<times> filesystem" where
  "rm_plain p f = (if is_file f p then (0, remove_entry p f) else (1, f))"

definition rm_rf_dir :: "path \<Rightarrow> filesystem \<Rightarrow> nat \<times> filesystem" where
  "rm_rf_dir p f = (if is_dir f p then (0, remove_tree p f) else (0, f))"

subsection \<open>Text tools\<close>

text \<open>
  The output of a command is its list of lines. \<open>grep -o '^[a-z]*'\<close> prints, for each line
  that starts with a lower-case letter, the run of lower-case letters it starts with.
  \<open>grep -v -f PATTERNS\<close> keeps the lines in which no pattern occurs; a pattern is searched
  anywhere in the line, and the empty pattern occurs in every line. Patterns are taken to
  hold no character that is special in a basic regular expression, so that a pattern occurs
  where it is a substring. \<open>echo "$var"\<close> prints the lines held by the variable, and one empty
  line when the variable is empty. An unquoted \<open>$var\<close> splits into words at blanks and line
  ends; the pathname expansion that the shell applies to a word with a pattern character is
  left out, so \<open>for_words\<close> is exact for words without one.
\<close>

definition is_lower :: "char \<Rightarrow> bool" where
  "is_lower c = (CHR ''a'' \<le> c \<and> c \<le> CHR ''z'')"

definition grep_o_lower :: "string list \<Rightarrow> string list" where
  "grep_o_lower ls = filter (\<lambda>l. l \<noteq> []) (map (takeWhile is_lower) ls)"

definition grep_v_f :: "string list \<Rightarrow> string list \<Rightarrow> string list" where
  "grep_v_f patterns ls = filter (\<lambda>l. \<not> list_ex (\<lambda>p. sublist p l) patterns) ls"

definition echo_lines :: "string list \<Rightarrow> string list" where
  "echo_lines ls = (if ls = [] then [[]] else ls)"

definition is_blank :: "char \<Rightarrow> bool" where
  "is_blank c = (c = CHR '' '' \<or> c = CHR 0x09)"

fun split_blank :: "string \<Rightarrow> string \<Rightarrow> string list" where
  "split_blank acc [] = (if acc = [] then [] else [acc])"
| "split_blank acc (c # cs) =
     (if is_blank c then (if acc = [] then [] else [acc]) @ split_blank [] cs
      else split_blank (acc @ [c]) cs)"

definition for_words :: "string list \<Rightarrow> string list" where
  "for_words ls = concat (map (split_blank []) ls)"

subsection \<open>Finding the owned applications\<close>

text \<open>
  \<open>find . -type d\<close> visits the project directory and every directory below it, at any depth.
  \<open>-not -path "./.venv/*"\<close> drops what lies below \<open>.venv\<close>, though not \<open>.venv\<close> itself. The two
  \<open>-exec test -f\<close> keep a directory that holds a regular file \<open>__init__.py\<close> and no regular
  file \<open>settings.py\<close>. \<open>-printf '%P\n'\<close> prints the path below the project directory, which
  is empty for the project directory itself, and \<open>cut -d '/' -f 1\<close> keeps its first name.
  \<open>sort -u\<close> sorts the names (byte order is taken) and drops repeated ones.
\<close>

definition find_dirs :: "filesystem \<Rightarrow> path list" where
  "find_dirs f = [] # map fst (filter (\<lambda>(p, n). n = Dir \<and> p \<noteq> []) f)"

definition below_venv :: "path \<Rightarrow> bool" where
  "below_venv p = (case p of a # b # _ \<Rightarrow> a = ''.venv'' | _ \<Rightarrow> False)"

definition owned_dir :: "filesystem \<Rightarrow> path \<Rightarrow> bool" where
  "owned_dir f p =
     (\<not> below_venv p \<and> is_file f (p @ [''__init__.py'']) \<and> \<not> is_file f (p @ [''settings.py'']))"

definition first_name :: "path \<Rightarrow> string" where
  "first_name p = (case p of [] \<Rightarrow> [] | a # _ \<Rightarrow> a)"

definition my_apps_of :: "filesystem \<Rightarrow> string list" where
  "my_apps_of f = remdups_adj (sort (map first_name (filter (owned_dir f) (find_dirs f))))"

section \<open>Migration reset: the script\<close>

text \<open>
  The framework's management commands (\<open>manage.py\<close>) and \<open>create_superuser.py\<close> are programs
  outside the script. Each is a function from what it can see and change, the files and the
  rest of the world (the database server, the environment), to an exit status and the
  new files and world; \<open>showmigrations\<close> gives its output lines in place of a status, the
  only output the script reads. The script is defined for any such commands. Sourcing
  \<open>.env\<close> is one of them: the file is taken to set variables for the framework only,
  none that the script reads itself.
\<close>

type_synonym 'x command = "filesystem \<times> 'x \<Rightarrow> nat \<times> filesystem \<times> 'x"

record 'x ext =
  source_env :: "'x command"
  showmigrations :: "filesystem \<times> 'x \<Rightarrow> string list \<times> filesystem \<times> 'x"
  migrate_zero :: "string \<Rightarrow> 'x command"
  makemigrations :: "string list \<Rightarrow> 'x command"
  migrate :: "'x command"
  create_superuser :: "'x command"

text \<open>
  A run is followed on a machine state: the files, the world, the exit status of the last
  command (\<open>$?\<close>) and the commands run so far, oldest first. The script has no \<open>set -e\<close> and
  never reads \<open>$?\<close>, so a status is only ever overwritten by the next command.
\<close>

datatype event =
    Echo string
  | Source_env
  | Rm_db
  | Showmigrations
  | Run_find
  | Migrate_zero string
  | Rm_migrations string
  | Makemigrations "string list"
  | Migrate
  | Create_superuser
  | Rm_error_log

record 'x machine =
  fs :: filesystem
  world :: 'x
  status :: nat
  trace :: "event list"

definition exec :: "event \<Rightarrow> 'x command \<Rightarrow> 'x machine \<Rightarrow> 'x machine" where
  "exec e c m =
     (case c (fs m, world m) of
        (st, f, w) \<Rightarrow> \<lparr>fs = f, world = w, status = st, trace = trace m @ [e]\<rparr>)"

definition on_files :: "(filesystem \<Rightarrow> nat \<times> filesystem) \<Rightarrow> 'x command" where
  "on_files c = (\<lambda>(f, w). case c f of (st, f') \<Rightarrow> (st, f', w))"

definition echo :: "string \<Rightarrow> 'x machine \<Rightarrow> 'x machine" where
  "echo s m = exec (Echo s) (\<lambda>(f, w). (0, f, w)) m"

text \<open>Lines 9 to 12: the flag is the first argument, compared with \<open>--redo\<close>.\<close>

definition redo_requested :: "string list \<Rightarrow> bool" where
  "redo_requested argv = (case argv of [] \<Rightarrow> False | a # _ \<Rightarrow> a = ''--redo'')"

text \<open>Lines 14 to 18.\<close>

definition load_env :: "'x ext \<Rightarrow> 'x machine \<Rightarrow> 'x machine" where
  "load_env X m =
     (if is_file (fs m) [''.env'']
      then exec Source_env (source_env X) (echo ''Sourcing .env file...'' m)
      else m)"

text \<open>
  Line 23: the pipeline's status is that of \<open>grep\<close>, and \<open>|| :\<close> turns a failure into
  success, so the status afterwards is 0. Lines 26 to 34 likewise; \<open>find\<close> changes nothing.
\<close>

definition list_apps :: "'x ext \<Rightarrow> 'x machine \<Rightarrow> string list \<times> 'x machine" where
  "list_apps X m =
     (case showmigrations X (fs m, world m) of
        (out, f, w) \<Rightarrow>
          (grep_o_lower out, \<lparr>fs = f, world = w, status = 0, trace = trace m @ [Showmigrations]\<rparr>))"

definition find_apps :: "'x machine \<Rightarrow> string list \<times> 'x machine" where
  "find_apps m = (my_apps_of (fs m), m\<lparr>status := 0, trace := trace m @ [Run_find]\<rparr>)"

text \<open>Lines 36 to 44: the function \<open>remove_app_migrations\<close>, and its loop body.\<close>

definition remove_one :: "'x ext \<Rightarrow> string \<Rightarrow> 'x machine \<Rightarrow> 'x machine" where
  "remove_one X app m =
     exec (Rm_migrations app) (on_files (rm_rf_dir [app, ''migrations'']))
       (exec (Migrate_zero app) (migrate_zero X app)
          (echo (''Removing migrations for '' @ app @ ''...'') m))"

definition remove_app_migrations :: "'x ext \<Rightarrow> string list \<Rightarrow> 'x machine \<Rightarrow> 'x machine" where
  "remove_app_migrations X my_apps m = fold (remove_one X) (for_words my_apps) m"

text \<open>Lines 46 to 56.\<close>

definition owned_phase :: "'x ext \<Rightarrow> bool \<Rightarrow> string list \<Rightarrow> 'x machine \<Rightarrow> 'x machine" where
  "owned_phase X redo my_apps m =
     (if redo then
        exec Migrate (migrate X)
          (exec (Makemigrations (for_words my_apps)) (makemigrations X (for_words my_apps))
             (remove_app_migrations X my_apps
                (echo ''Creating migrations...'' (echo ''Redoing migrations...'' m))))
      else remove_app_migrations X my_apps m)"

text \<open>Lines 58 to 67.\<close>

definition django_apps_of :: "string list \<Rightarrow> string list \<Rightarrow> string list" where
  "django_apps_of all_apps my_apps = grep_v_f (echo_lines my_apps) (echo_lines all_apps)"

definition undo_one :: "'x ext \<Rightarrow> string \<Rightarrow> 'x machine \<Rightarrow> 'x machine" where
  "undo_one X app m =
     exec (Rm_migrations app) (on_files (rm_rf_dir [app, ''migrations'']))
       (exec (Migrate_zero app) (migrate_zero X app)
          (echo (''Undoing migrations for '' @ app @ ''...'') m))"

definition undo_all :: "'x ext \<Rightarrow> string list \<Rightarrow> 'x machine \<Rightarrow> 'x machine" where
  "undo_all X django_apps m = fold (undo_one X) (for_words django_apps) m"

text \<open>Lines 69 to 76.\<close>

definition redo_phase :: "'x ext \<Rightarrow> bool \<Rightarrow> 'x machine \<Rightarrow> 'x machine" where
  "redo_phase X redo m =
     (if redo then
        echo ''Super User created...''
          (exec Create_superuser (create_superuser X)
             (echo ''Creating super superuser...''
                (echo [] (exec Migrate (migrate X) m))))
      else m)"

text \<open>The whole script; lines 78 and 79 end it.\<close>

definition undo_migrations :: "'x ext \<Rightarrow> string list \<Rightarrow> 'x machine \<Rightarrow> 'x machine" where
  "undo_migrations X argv m0 =
     (let redo = redo_requested argv;
          m1 = load_env X m0;
          m2 = exec Rm_db (on_files (rm_f [''db.sqlite3''])) m1;
          (all_apps, m3) = list_apps X m2;
          (my_apps, m4) = find_apps m3;
          m5 = owned_phase X redo my_apps m4;
          django_apps = django_apps_of all_apps my_apps;
          m6 = undo_all X django_apps m5;
          m7 = redo_phase X redo m6;
          m8 = exec Rm_error_log (on_files (rm_plain [''error.log''])) m7
      in echo ''Finished execution successfully'' m8)"

text \<open>
  What a run from \<open>m0\<close> finds: the state in which the applications are looked up, the lines
  of \<open>all_apps\<close> and \<open>my_apps\<close>, and those of \<open>django_apps\<close>.
\<close>

definition looked_up :: "'x ext \<Rightarrow> 'x machine \<Rightarrow> string list \<times> 'x machine" where
  "looked_up X m0 = list_apps X (exec Rm_db (on_files (rm_f [''db.sqlite3''])) (load_env X m0))"

definition all_apps_at :: "'x ext \<Rightarrow> 'x machine \<Rightarrow> string list" where
  "all_apps_at X m0 = fst (looked_up X m0)"

definition my_apps_at :: "'x ext \<Rightarrow> 'x machine \<Rightarrow> string list" where
  "my_apps_at X m0 = my_apps_of (fs (snd (looked_up X m0)))"

definition django_apps_at :: "'x ext \<Rightarrow> 'x machine \<Rightarrow> string list" where
  "django_apps_at X m0 = django_apps_of (all_apps_at X m0) (my_apps_at X m0)"

subsection \<open>Steps and what they leave behind\<close>

lemma trace_exec: "trace (exec e c m) = trace m @ [e]"
  by (simp add: exec_def split: prod.splits)

lemma status_echo: "status (echo s m) = 0"
  by (simp add: echo_def exec_def)

lemma trace_echo: "trace (echo s m) = trace m @ [Echo s]"
  by (simp add: echo_def trace_exec)

lemma fs_echo: "fs (echo s m) = fs m"
  by (simp add: echo_def exec_def)

lemma world_echo: "world (echo s m) = world m"
  by (simp add: echo_def exec_def)

lemma trace_load_env:
  "trace (load_env X m) =
     trace m @ (if is_file (fs m) [''.env''] then [Echo ''Sourcing .env file...'', Source_env] else [])"
  by (simp add: load_env_def trace_exec trace_echo)

lemma trace_list_apps: "trace (snd (list_apps X m)) = trace m @ [Showmigrations]"
  by (simp add: list_apps_def split: prod.splits)

lemma trace_find_apps: "trace (snd (find_apps m)) = trace m @ [Run_find]"
  by (simp add: find_apps_def)

lemma fs_find_apps: "fs (snd (find_apps m)) = fs m"
  by (simp add: find_apps_def)

lemma world_find_apps: "world (snd (find_apps m)) = world m"
  by (simp add: find_apps_def)

text \<open>The commands of one round of each of the two loops, in the order they run.\<close>

definition removal_events :: "string \<Rightarrow> event list" where
  "removal_events app =
     [Echo (''Removing migrations for '' @ app @ ''...''), Migrate_zero app, Rm_migrations app]"

definition undo_events :: "string \<Rightarrow> event list" where
  "undo_events app =
     [Echo (''Undoing migrations for '' @ app @ ''...''), Migrate_zero app, Rm_migrations app]"

lemma trace_remove_one: "trace (remove_one X app m) = trace m @ removal_events app"
  by (simp add: remove_one_def removal_events_def trace_exec trace_echo)

lemma trace_undo_one: "trace (undo_one X app m) = trace m @ undo_events app"
  by (simp add: undo_one_def undo_events_def trace_exec trace_echo)

lemma trace_fold_remove:
  "trace (fold (remove_one X) apps m) = trace m @ concat (map removal_events apps)"
  by (induction apps arbitrary: m) (simp_all add: trace_remove_one)

lemma trace_fold_undo:
  "trace (fold (undo_one X) apps m) = trace m @ concat (map undo_events apps)"
  by (induction apps arbitrary: m) (simp_all add: trace_undo_one)

lemma trace_owned_phase:
  "trace (owned_phase X redo my_apps m) =
     trace m
     @ (if redo then [Echo ''Redoing migrations...'', Echo ''Creating migrations...''] else [])
     @ concat (map removal_events (for_words my_apps))
     @ (if redo then [Makemigrations (for_words my_apps), Migrate] else [])"
  by (simp add: owned_phase_def remove_app_migrations_def trace_exec trace_echo trace_fold_remove)

lemma trace_undo_all:
  "trace (undo_all X django_apps m) = trace m @ concat (map undo_events (for_words django_apps))"
  by (simp add: undo_all_def trace_fold_undo)

lemma trace_redo_phase:
  "trace (redo_phase X redo m) =
     trace m
     @ (if redo then [Migrate, Echo [], Echo ''Creating super superuser...'', Create_superuser,
                      Echo ''Super User created...''] else [])"
  by (simp add: redo_phase_def trace_exec trace_echo)

lemma undo_migrations_phases:
  "undo_migrations X argv m0 =
     echo ''Finished execution successfully''
       (exec Rm_error_log (on_files (rm_plain [''error.log'']))
          (redo_phase X (redo_requested argv)
             (undo_all X (django_apps_at X m0)
                (owned_phase X (redo_requested argv) (my_apps_at X m0)
                   (snd (find_apps (snd (looked_up X m0))))))))"
  by (simp add: undo_migrations_def Let_def split_def looked_up_def django_apps_at_def
      all_apps_at_def my_apps_at_def find_apps_def)

lemma trace_looked_up:
  "trace (snd (looked_up X m0)) =
     trace m0
     @ (if is_file (fs m0) [''.env''] then [Echo ''Sourcing .env file...'', Source_env] else [])
     @ [Rm_db, Showmigrations]"
  by (simp add: looked_up_def trace_list_apps trace_exec trace_load_env)

lemma trace_undo_migrations:
  "trace (undo_migrations X argv m0) =
     trace m0
     @ (if is_file (fs m0) [''.env''] then [Echo ''Sourcing .env file...'', Source_env] else [])
     @ [Rm_db, Showmigrations, Run_find]
     @ (if redo_requested argv
        then [Echo ''Redoing migrations...'', Echo ''Creating migrations...''] else [])
     @ concat (map removal_events (for_words (my_apps_at X m0)))
     @ (if redo_requested argv
        then [Makemigrations (for_words (my_apps_at X m0)), Migrate] else [])
     @ concat (map undo_events (for_words (django_apps_at X m0)))
     @ (if redo_requested argv
        then [Migrate, Echo [], Echo ''Creating super superuser...'', Create_superuser,
              Echo ''Super User created...''] else [])
     @ [Rm_error_log, Echo ''Finished execution successfully'']"
  unfolding undo_migrations_phases
  by (simp only: trace_echo trace_exec trace_redo_phase trace_undo_all trace_owned_phase
      trace_find_apps trace_looked_up append_assoc append.simps)

text \<open>
  Claim C8. Whatever the flag, the starting state and the exit statuses of the steps before,
  the run ends with the final \<open>echo\<close> as its last command and with exit status 0. (The
  commands outside the script are functions here, so each of them returns.)
\<close>

theorem exit_status_zero:
  "status (undo_migrations X argv m0) = 0
   \<and> last (trace (undo_migrations X argv m0)) = Echo ''Finished execution successfully''"
  by (simp add: undo_migrations_phases status_echo trace_echo)

subsection \<open>The owned applications\<close>

text \<open>
  Ownership in the words of the claim: a top-level directory other than \<open>.venv\<close> that holds
  \<open>__init__.py\<close> and does not hold \<open>settings.py\<close>.
\<close>

definition claimed_owned :: "filesystem \<Rightarrow> string \<Rightarrow> bool" where
  "claimed_owned f name =
     (name \<noteq> ''.venv'' \<and> is_dir f [name]
      \<and> is_file f [name, ''__init__.py''] \<and> \<not> is_file f [name, ''settings.py''])"

text \<open>A project package with its settings and one package below it.\<close>

definition fs_nested :: filesystem where
  "fs_nested =
     [([''proj''], Dir),
      ([''proj'', ''__init__.py''], File []),
      ([''proj'', ''settings.py''], File []),
      ([''proj'', ''utils''], Dir),
      ([''proj'', ''utils'', ''__init__.py''], File [])]"

lemma set_my_apps_of:
  "set (my_apps_of f) = first_name ` {d \<in> set (find_dirs f). owned_dir f d}"
  by (simp add: my_apps_of_def)

lemma is_dir_found: "is_dir f p \<Longrightarrow> p \<in> set (find_dirs f)"
proof -
  assume "is_dir f p"
  then have "map_of f p = Some Dir"
    by (auto simp: is_dir_def split: option.splits node.splits)
  then have "(p, Dir) \<in> set f"
    by (rule map_of_SomeD)
  then show ?thesis
    by (cases "p = []") (force simp: find_dirs_def)+
qed

lemma distinct_remdups_adj_sorted:
  "sorted xs \<Longrightarrow> distinct (remdups_adj (xs :: 'a :: linorder list))"
  by (induction xs rule: remdups_adj.induct) auto

text \<open>
  Claim C3 as stated fails: \<open>proj\<close> holds \<open>settings.py\<close>, and still the script takes it for an
  owned application, because the package \<open>proj/utils\<close> below it qualifies.
\<close>

theorem my_apps_nested_counterexample:
  "''proj'' \<in> set (my_apps_of fs_nested) \<and> \<not> claimed_owned fs_nested ''proj''"
  by code_simp

text \<open>
  Claim C3, amended. A name is in \<open>my_apps\<close> exactly when it is the first path component of
  some directory, at any depth and not below \<open>.venv\<close> (the project directory itself counts,
  with the empty name), that holds a regular file \<open>__init__.py\<close> and no regular file
  \<open>settings.py\<close>. The names are sorted and not repeated. Every top-level directory that itself
  meets the two conditions is among them.
\<close>

theorem my_apps_exact:
  "(name \<in> set (my_apps_of f) \<longleftrightarrow>
      (\<exists>d. (d = [] \<or> (d, Dir) \<in> set f) \<and> \<not> below_venv d
           \<and> is_file f (d @ [''__init__.py'']) \<and> \<not> is_file f (d @ [''settings.py''])
           \<and> first_name d = name))
   \<and> sorted (my_apps_of f) \<and> distinct (my_apps_of f)
   \<and> (is_dir f [name] \<and> is_file f [name, ''__init__.py''] \<and> \<not> is_file f [name, ''settings.py'']
        \<longrightarrow> name \<in> set (my_apps_of f))"
proof -
  have dirs: "d \<in> set (find_dirs f) \<longleftrightarrow> d = [] \<or> (d, Dir) \<in> set f" for d
    by (force simp: find_dirs_def)
  have a: "name \<in> set (my_apps_of f) \<longleftrightarrow>
      (\<exists>d. (d = [] \<or> (d, Dir) \<in> set f) \<and> \<not> below_venv d
           \<and> is_file f (d @ [''__init__.py'']) \<and> \<not> is_file f (d @ [''settings.py''])
           \<and> first_name d = name)"
    unfolding set_my_apps_of by (auto simp: dirs owned_dir_def)
  have b: "sorted (my_apps_of f)"
    by (simp add: my_apps_of_def sorted_remdups_adj)
  have c: "distinct (my_apps_of f)"
    by (simp add: my_apps_of_def distinct_remdups_adj_sorted)
  have d: "name \<in> set (my_apps_of f)"
    if "is_dir f [name] \<and> is_file f [name, ''__init__.py''] \<and> \<not> is_file f [name, ''settings.py'']"
  proof -
    have "[name] \<in> set (find_dirs f)" using that by (simp add: is_dir_found)
    moreover have "owned_dir f [name]" using that by (simp add: owned_dir_def below_venv_def)
    ultimately have "first_name [name] \<in> set (my_apps_of f)"
      unfolding set_my_apps_of by blast
    then show ?thesis by (simp add: first_name_def)
  qed
  from a b c d show ?thesis by blast
qed

theorem my_apps_exact_witness:
  "is_dir fs_nested [''proj''] \<and> is_file fs_nested [''proj'', ''utils'', ''__init__.py'']
   \<and> my_apps_of fs_nested = [''proj'']"
proof -
  have "my_apps_of fs_nested = [''proj'']" by code_simp
  moreover have "is_dir fs_nested [''proj''] \<and> is_file fs_nested [''proj'', ''utils'', ''__init__.py'']"
    by code_simp
  ultimately show ?thesis
    using my_apps_exact[of "''proj''" fs_nested] by simp
qed

subsection \<open>Runs to look at\<close>

text \<open>
  A run starts with an empty trace. \<open>quiet_ext\<close> is an environment for concrete runs: the
  framework prints the given listing and its commands succeed without changing anything, as
  they do for a project whose database is kept elsewhere and has nothing applied.
\<close>

definition start :: "filesystem \<Rightarrow> 'x \<Rightarrow> 'x machine" where
  "start f w = \<lparr>fs = f, world = w, status = 0, trace = []\<rparr>"

definition quiet_ext :: "string list \<Rightarrow> unit ext" where
  "quiet_ext listing =
     \<lparr>source_env = (\<lambda>(f, w). (0, f, w)),
      showmigrations = (\<lambda>(f, w). (listing, f, w)),
      migrate_zero = (\<lambda>app (f, w). (0, f, w)),
      makemigrations = (\<lambda>apps (f, w). (0, f, w)),
      migrate = (\<lambda>(f, w). (0, f, w)),
      create_superuser = (\<lambda>(f, w). (0, f, w))\<rparr>"

subsection \<open>The order of the steps\<close>

text \<open>
  The order in the words of the claim, on the trace of a run: migration files are regenerated,
  then the migrations are applied, then the superuser is provisioned, and every unwinding and
  every deletion for the other applications comes after that. \<open>first_at\<close> is the position of
  the first occurrence of a command.
\<close>

definition first_at :: "event \<Rightarrow> event list \<Rightarrow> nat" where
  "first_at e tr = length (takeWhile (\<lambda>x. x \<noteq> e) tr)"

definition claimed_redo_order :: "string list \<Rightarrow> string list \<Rightarrow> event list \<Rightarrow> bool" where
  "claimed_redo_order owned others tr =
     (first_at (Makemigrations owned) tr < first_at Migrate tr
      \<and> first_at Migrate tr < first_at Create_superuser tr
      \<and> list_all (\<lambda>a. first_at Create_superuser tr < first_at (Migrate_zero a) tr
                      \<and> first_at Create_superuser tr < first_at (Rm_migrations a) tr) others)"

text \<open>
  A project with one owned application, \<open>blog\<close>, an application \<open>shop\<close> that is not owned
  (no \<open>__init__.py\<close>) and keeps a migration directory in the project tree, and a framework
  application whose migration files lie below \<open>.venv\<close>.
\<close>

definition fs_shop :: filesystem where
  "fs_shop =
     [([''blog''], Dir),
      ([''blog'', ''__init__.py''], File []),
      ([''shop''], Dir),
      ([''shop'', ''migrations''], Dir),
      ([''shop'', ''migrations'', ''0001_initial.py''], File ''# initial''),
      ([''.venv''], Dir),
      ([''.venv'', ''auth''], Dir),
      ([''.venv'', ''auth'', ''migrations''], Dir),
      ([''.venv'', ''auth'', ''migrations'', ''__init__.py''], File []),
      ([''.venv'', ''auth'', ''migrations'', ''0001_initial.py''], File ''# auth'')]"

definition listing_shop :: "string list" where
  "listing_shop =
     [''auth'', '' [X] 0001_initial'', ''blog'', '' (no migrations)'', ''shop'', '' (no migrations)'']"

text \<open>
  Claim C4 as stated fails: in a run with \<open>--redo\<close> the other applications are unwound and
  their migration directories deleted before the superuser is provisioned, not after.
\<close>

theorem redo_order_counterexample:
  "for_words (my_apps_at (quiet_ext listing_shop) (start fs_shop ())) = [''blog'']
   \<and> for_words (django_apps_at (quiet_ext listing_shop) (start fs_shop ())) = [''auth'', ''shop'']
   \<and> \<not> claimed_redo_order [''blog''] [''auth'', ''shop'']
         (trace (undo_migrations (quiet_ext listing_shop) [''--redo''] (start fs_shop ())))"
  by code_simp

text \<open>
  Claim C4, amended. With \<open>--redo\<close> the commands of a run are, in this order: the sourcing of
  \<open>.env\<close> when that file exists, the deletion of the database file, the listing of all
  applications and the search for the owned ones; for each owned application its unwinding
  and the deletion of its migration directory; the regeneration of the migration files of the
  owned applications; the application of all migrations; for every other discovered
  application its unwinding and the deletion of its migration directory; a second
  application of all migrations; the provisioning of the superuser; the deletion of the
  error log and the final message.
\<close>

theorem redo_order:
  assumes "redo_requested argv"
  shows "trace (undo_migrations X argv m0) =
     trace m0
     @ (if is_file (fs m0) [''.env''] then [Echo ''Sourcing .env file...'', Source_env] else [])
     @ [Rm_db, Showmigrations, Run_find,
        Echo ''Redoing migrations...'', Echo ''Creating migrations...'']
     @ concat (map (\<lambda>app. [Echo (''Removing migrations for '' @ app @ ''...''),
                             Migrate_zero app, Rm_migrations app])
         (for_words (my_apps_at X m0)))
     @ [Makemigrations (for_words (my_apps_at X m0)), Migrate]
     @ concat (map (\<lambda>app. [Echo (''Undoing migrations for '' @ app @ ''...''),
                             Migrate_zero app, Rm_migrations app])
         (for_words (django_apps_at X m0)))
     @ [Migrate, Echo [], Echo ''Creating super superuser...'', Create_superuser,
        Echo ''Super User created...'', Rm_error_log, Echo ''Finished execution successfully'']"
proof -
  have r: "removal_events = (\<lambda>app. [Echo (''Removing migrations for '' @ app @ ''...''),
                             Migrate_zero app, Rm_migrations app])"
    by (rule ext) (simp add: removal_events_def)
  have u: "undo_events = (\<lambda>app. [Echo (''Undoing migrations for '' @ app @ ''...''),
                             Migrate_zero app, Rm_migrations app])"
    by (rule ext) (simp add: undo_events_def)
  show ?thesis
    using assms unfolding trace_undo_migrations r u by simp
qed

theorem redo_order_witness:
  "redo_requested [''--redo'']
   \<and> trace (undo_migrations (quiet_ext listing_shop) [''--redo''] (start fs_shop ())) =
     [Rm_db, Showmigrations, Run_find,
      Echo ''Redoing migrations...'', Echo ''Creating migrations...'',
      Echo ''Removing migrations for blog...'', Migrate_zero ''blog'', Rm_migrations ''blog'',
      Makemigrations [''blog''], Migrate,
      Echo ''Undoing migrations for auth...'', Migrate_zero ''auth'', Rm_migrations ''auth'',
      Echo ''Undoing migrations for shop...'', Migrate_zero ''shop'', Rm_migrations ''shop'',
      Migrate, Echo [], Echo ''Creating super superuser...'', Create_superuser,
      Echo ''Super User created...'', Rm_error_log, Echo ''Finished execution successfully'']"
proof -
  have a: "redo_requested [''--redo'']"
    by (simp add: redo_requested_def)
  have b: "for_words (my_apps_at (quiet_ext listing_shop) (start fs_shop ())) = [''blog'']"
    by code_simp
  have c: "for_words (django_apps_at (quiet_ext listing_shop) (start fs_shop ())) = [''auth'', ''shop'']"
    by code_simp
  have d: "\<not> is_file fs_shop [''.env'']"
    by code_simp
  show ?thesis
    using a d redo_order[OF a, of "quiet_ext listing_shop" "start fs_shop ()"]
    unfolding b c by (simp add: start_def)
qed

subsection \<open>What a run leaves alone\<close>

text \<open>
  A command keeps a path when the path leads to the same thing after the command as before,
  whatever the state it runs in. An environment keeps a path when each of its commands does.
\<close>

definition command_keeps :: "path \<Rightarrow> 'x command \<Rightarrow> bool" where
  "command_keeps p c = (\<forall>f w. map_of (fst (snd (c (f, w)))) p = map_of f p)"

definition keeps :: "'x ext \<Rightarrow> path \<Rightarrow> bool" where
  "keeps X p =
     (command_keeps p (source_env X)
      \<and> (\<forall>f w. map_of (fst (snd (showmigrations X (f, w)))) p = map_of f p)
      \<and> (\<forall>app. command_keeps p (migrate_zero X app))
      \<and> (\<forall>apps. command_keeps p (makemigrations X apps))
      \<and> command_keeps p (migrate X)
      \<and> command_keeps p (create_superuser X))"

text \<open>
  The frame in the words of the claim, for one migration file \<open>app/migrations/...\<close>: the
  application is owned, or the file is after the run what it was before.
\<close>

definition claimed_untouched :: "'x ext \<Rightarrow> string list \<Rightarrow> 'x machine \<Rightarrow> string \<Rightarrow> path \<Rightarrow> bool" where
  "claimed_untouched X argv m0 app rest =
     (app \<in> set (my_apps_at X m0)
      \<or> map_of (fs (undo_migrations X argv m0)) (app # ''migrations'' # rest)
          = map_of (fs m0) (app # ''migrations'' # rest))"

lemma map_of_filter_key:
  "map_of (filter (\<lambda>(q, n). P q) f) p = (if P p then map_of f p else None)"
  by (induction f) auto

lemma map_of_remove_entry: "p \<noteq> q \<Longrightarrow> map_of (remove_entry q f) p = map_of f p"
  by (simp add: remove_entry_def map_of_filter_key)

lemma map_of_remove_tree: "\<not> prefix q p \<Longrightarrow> map_of (remove_tree q f) p = map_of f p"
  by (simp add: remove_tree_def map_of_filter_key)

lemma keeps_rm_f: "p \<noteq> q \<Longrightarrow> command_keeps p (on_files (rm_f q))"
  by (simp add: command_keeps_def on_files_def rm_f_def map_of_remove_entry)

lemma keeps_rm_plain: "p \<noteq> q \<Longrightarrow> command_keeps p (on_files (rm_plain q))"
  by (simp add: command_keeps_def on_files_def rm_plain_def map_of_remove_entry)

lemma keeps_rm_rf_dir: "\<not> prefix q p \<Longrightarrow> command_keeps p (on_files (rm_rf_dir q))"
  by (simp add: command_keeps_def on_files_def rm_rf_dir_def map_of_remove_tree)

lemma exec_keeps:
  assumes "command_keeps p c"
  shows "map_of (fs (exec e c m)) p = map_of (fs m) p"
proof -
  obtain st f w where r: "c (fs m, world m) = (st, f, w)"
    by (cases "c (fs m, world m)") auto
  from assms have "map_of (fst (snd (c (fs m, world m)))) p = map_of (fs m) p"
    unfolding command_keeps_def by blast
  then show ?thesis by (simp add: exec_def r)
qed

lemma remove_one_keeps:
  assumes "keeps X p" "\<not> prefix [app, ''migrations''] p"
  shows "map_of (fs (remove_one X app m)) p = map_of (fs m) p"
proof -
  have "command_keeps p (migrate_zero X app)"
    using assms(1) by (simp add: keeps_def)
  then show ?thesis
    using assms(2) by (simp add: remove_one_def exec_keeps keeps_rm_rf_dir fs_echo)
qed

lemma undo_one_keeps:
  assumes "keeps X p" "\<not> prefix [app, ''migrations''] p"
  shows "map_of (fs (undo_one X app m)) p = map_of (fs m) p"
proof -
  have "command_keeps p (migrate_zero X app)"
    using assms(1) by (simp add: keeps_def)
  then show ?thesis
    using assms(2) by (simp add: undo_one_def exec_keeps keeps_rm_rf_dir fs_echo)
qed

lemma fold_remove_keeps:
  assumes "keeps X p" "\<forall>app \<in> set apps. \<not> prefix [app, ''migrations''] p"
  shows "map_of (fs (fold (remove_one X) apps m)) p = map_of (fs m) p"
  using assms(2)
  by (induction apps arbitrary: m) (simp_all add: remove_one_keeps[OF assms(1)])

lemma fold_undo_keeps:
  assumes "keeps X p" "\<forall>app \<in> set apps. \<not> prefix [app, ''migrations''] p"
  shows "map_of (fs (fold (undo_one X) apps m)) p = map_of (fs m) p"
  using assms(2)
  by (induction apps arbitrary: m) (simp_all add: undo_one_keeps[OF assms(1)])

lemma owned_phase_keeps:
  assumes "keeps X p" "\<forall>app \<in> set (for_words my_apps). \<not> prefix [app, ''migrations''] p"
  shows "map_of (fs (owned_phase X redo my_apps m)) p = map_of (fs m) p"
proof -
  have "command_keeps p (migrate X)" "command_keeps p (makemigrations X (for_words my_apps))"
    using assms(1) by (simp_all add: keeps_def)
  then show ?thesis
    by (simp add: owned_phase_def remove_app_migrations_def exec_keeps
        fold_remove_keeps[OF assms] fs_echo)
qed

lemma undo_all_keeps:
  assumes "keeps X p" "\<forall>app \<in> set (for_words django_apps). \<not> prefix [app, ''migrations''] p"
  shows "map_of (fs (undo_all X django_apps m)) p = map_of (fs m) p"
  by (simp add: undo_all_def fold_undo_keeps[OF assms])

lemma redo_phase_keeps:
  assumes "keeps X p"
  shows "map_of (fs (redo_phase X redo m)) p = map_of (fs m) p"
proof -
  have "command_keeps p (migrate X)" "command_keeps p (create_superuser X)"
    using assms by (simp_all add: keeps_def)
  then show ?thesis
    by (simp add: redo_phase_def exec_keeps fs_echo)
qed

lemma load_env_keeps:
  assumes "keeps X p"
  shows "map_of (fs (load_env X m)) p = map_of (fs m) p"
proof -
  have "command_keeps p (source_env X)"
    using assms by (simp add: keeps_def)
  then show ?thesis
    by (simp add: load_env_def exec_keeps fs_echo)
qed

lemma list_apps_keeps:
  assumes "keeps X p"
  shows "map_of (fs (snd (list_apps X m))) p = map_of (fs m) p"
proof -
  obtain out f w where r: "showmigrations X (fs m, world m) = (out, f, w)"
    by (cases "showmigrations X (fs m, world m)") auto
  from assms have "map_of (fst (snd (showmigrations X (fs m, world m)))) p = map_of (fs m) p"
    unfolding keeps_def by blast
  then show ?thesis by (simp add: list_apps_def r)
qed

lemma looked_up_keeps:
  assumes "keeps X p" "p \<noteq> [''db.sqlite3'']"
  shows "map_of (fs (snd (looked_up X m0))) p = map_of (fs m0) p"
  by (simp add: looked_up_def list_apps_keeps[OF assms(1)] exec_keeps keeps_rm_f[OF assms(2)]
      load_env_keeps[OF assms(1)])

lemma quiet_keeps: "keeps (quiet_ext listing) p"
  by (simp add: keeps_def command_keeps_def quiet_ext_def)

text \<open>
  Names the model is exact for. A word that holds \<open>*\<close>, \<open>?\<close> or \<open>[\<close> is a pattern to the
  shell, which replaces it by the matching file names, and \<open>grep\<close> reads \<open>.\<close>, \<open>*\<close>, \<open>[\<close>,
  \<open>]\<close>, \<open>^\<close>, \<open>$\<close> and the backslash in a pattern as operators. \<open>for_words\<close> and
  \<open>grep_v_f\<close> do neither, so what is proved below about the names the loops run over is
  stated for owned names without these characters. A name that holds a line end does not
  stay on one line of \<open>my_apps\<close>, and one that starts with a dash is taken for options by
  \<open>rm\<close>; these are set aside too. The names of \<open>all_apps\<close> are runs of lower-case letters
  and are plain in this sense.
\<close>

definition plain_char :: "char \<Rightarrow> bool" where
  "plain_char c =
     (c \<noteq> CHR ''*'' \<and> c \<noteq> CHR ''?'' \<and> c \<noteq> CHR ''['' \<and> c \<noteq> CHR '']''
      \<and> c \<noteq> CHR ''.'' \<and> c \<noteq> CHR ''^'' \<and> c \<noteq> CHR ''$'' \<and> c \<noteq> CHR 0x5C
      \<and> c \<noteq> CHR 0x0A)"

definition plain_names :: "string list \<Rightarrow> bool" where
  "plain_names ls = list_all (\<lambda>l. list_all plain_char l \<and> take 1 l \<noteq> ''-'') ls"

text \<open>
  A project in which the application \<open>shop\<close> is not owned although its migration directory is
  a package: next to \<open>__init__.py\<close> and the first migration it holds a migration whose file
  is called \<open>settings.py\<close>.
\<close>

definition fs_settings :: filesystem where
  "fs_settings =
     [([''blog''], Dir),
      ([''blog'', ''__init__.py''], File []),
      ([''shop''], Dir),
      ([''shop'', ''migrations''], Dir),
      ([''shop'', ''migrations'', ''__init__.py''], File []),
      ([''shop'', ''migrations'', ''0001_initial.py''], File ''# initial''),
      ([''shop'', ''migrations'', ''settings.py''], File ''# a migration named settings'')]"

definition listing_settings :: "string list" where
  "listing_settings =
     [''blog'', '' (no migrations)'', ''shop'', '' [X] 0001_initial'', '' [X] settings'']"

text \<open>
  Claim C1 as stated fails: \<open>shop\<close> is not owned, the framework lists it, and the run deletes
  its migration package with the migration files in it.
\<close>

theorem not_owned_migrations_counterexample:
  "\<not> claimed_untouched (quiet_ext listing_settings) [] (start fs_settings ())
       ''shop'' [''0001_initial.py'']
   \<and> is_file fs_settings [''shop'', ''migrations'', ''__init__.py'']
   \<and> map_of fs_settings [''shop'', ''migrations'', ''0001_initial.py''] = Some (File ''# initial'')
   \<and> map_of (fs (undo_migrations (quiet_ext listing_settings) [] (start fs_settings ())))
         [''shop'', ''migrations'', ''0001_initial.py''] = None"
  by code_simp

subsection \<open>The second loop and migration packages\<close>

lemma split_blank_no_blank:
  "\<forall>c \<in> set l. \<not> is_blank c \<Longrightarrow> split_blank acc l = (if acc @ l = [] then [] else [acc @ l])"
  by (induction l arbitrary: acc) auto

lemma lower_not_blank: "is_lower c \<Longrightarrow> \<not> is_blank c"
  by (auto simp: is_lower_def is_blank_def)

lemma grep_o_lower_lines:
  "l \<in> set (grep_o_lower out) \<Longrightarrow> l \<noteq> [] \<and> (\<forall>c \<in> set l. is_lower c)"
  by (auto simp: grep_o_lower_def dest: set_takeWhileD)

lemma all_apps_lower:
  "l \<in> set (all_apps_at X m0) \<Longrightarrow> l \<noteq> [] \<and> (\<forall>c \<in> set l. is_lower c)"
  by (auto simp: all_apps_at_def looked_up_def list_apps_def split: prod.splits
      dest: grep_o_lower_lines)

lemma django_word:
  assumes "app \<in> set (for_words (django_apps_at X m0))"
  shows "app \<in> set (all_apps_at X m0) \<and> \<not> list_ex (\<lambda>p. sublist p app) (echo_lines (my_apps_at X m0))"
proof -
  from assms obtain l where l: "l \<in> set (django_apps_at X m0)" and w: "app \<in> set (split_blank [] l)"
    by (auto simp: for_words_def)
  from l have kept: "l \<in> set (echo_lines (all_apps_at X m0))"
    and nomatch: "\<not> list_ex (\<lambda>p. sublist p l) (echo_lines (my_apps_at X m0))"
    by (auto simp: django_apps_at_def django_apps_of_def grep_v_f_def)
  have noblank: "\<forall>c \<in> set l. \<not> is_blank c"
    using kept all_apps_lower[of l X m0] lower_not_blank
    by (auto simp: echo_lines_def split: if_splits)
  from w have "app = l" and "l \<noteq> []"
    by (auto simp: split_blank_no_blank[OF noblank] split: if_splits)
  with kept nomatch show ?thesis
    by (auto simp: echo_lines_def split: if_splits)
qed

lemma package_is_owned:
  assumes "app \<noteq> ''.venv''" "([app, ''migrations''], Dir) \<in> set f"
    "is_file f [app, ''migrations'', ''__init__.py'']"
    "\<not> is_file f [app, ''migrations'', ''settings.py'']"
  shows "app \<in> set (my_apps_of f)"
proof -
  have "[app, ''migrations''] \<in> set (find_dirs f)"
    using assms(2) by (force simp: find_dirs_def)
  moreover have "owned_dir f [app, ''migrations'']"
    using assms by (simp add: owned_dir_def below_venv_def)
  ultimately have "first_name [app, ''migrations''] \<in> set (my_apps_of f)"
    unfolding set_my_apps_of by blast
  then show ?thesis by (simp add: first_name_def)
qed

lemma django_word_no_package:
  assumes "app \<in> set (for_words (django_apps_at X m0))"
  shows "\<not> (([app, ''migrations''], Dir) \<in> set (fs (snd (looked_up X m0)))
            \<and> is_file (fs (snd (looked_up X m0))) [app, ''migrations'', ''__init__.py'']
            \<and> \<not> is_file (fs (snd (looked_up X m0))) [app, ''migrations'', ''settings.py''])"
proof
  assume pkg: "([app, ''migrations''], Dir) \<in> set (fs (snd (looked_up X m0)))
            \<and> is_file (fs (snd (looked_up X m0))) [app, ''migrations'', ''__init__.py'']
            \<and> \<not> is_file (fs (snd (looked_up X m0))) [app, ''migrations'', ''settings.py'']"
  from django_word[OF assms] have a: "app \<in> set (all_apps_at X m0)"
    and nomatch: "\<not> list_ex (\<lambda>p. sublist p app) (echo_lines (my_apps_at X m0))"
    by auto
  from all_apps_lower[OF a] have "\<forall>c \<in> set app. is_lower c" by simp
  then have "app \<noteq> ''.venv''"
    by (auto simp: is_lower_def)
  with pkg have "app \<in> set (my_apps_at X m0)"
    unfolding my_apps_at_def by (intro package_is_owned) auto
  then have "app \<in> set (echo_lines (my_apps_at X m0))"
    by (auto simp: echo_lines_def)
  then have "list_ex (\<lambda>p. sublist p app) (echo_lines (my_apps_at X m0))"
    unfolding list_ex_iff by (intro bexI[of _ app]) auto
  with nomatch show False by simp
qed

text \<open>
  Claim C1, amended. With either flag and owned names without pattern characters, every path
  other than \<open>db.sqlite3\<close> and \<open>error.log\<close> that the framework's commands keep, and that lies
  in no directory \<open>app/migrations\<close> of a name one of the two loops runs over, leads after the
  run to what it led to before. And no name of the second loop has, when the applications
  are looked up, a directory \<open>app/migrations\<close> that holds \<open>__init__.py\<close> and no
  \<open>settings.py\<close>: such an application is owned. Migration files outside the project's
  \<open>app/migrations\<close> directories, such as those below \<open>.venv\<close>, are therefore kept.
\<close>

theorem deletes_only_its_targets:
  "(plain_names (my_apps_at X m0) \<and> keeps X p
      \<and> p \<noteq> [''db.sqlite3''] \<and> p \<noteq> [''error.log'']
      \<and> (\<forall>app \<in> set (for_words (my_apps_at X m0)) \<union> set (for_words (django_apps_at X m0)).
            \<not> prefix [app, ''migrations''] p)
      \<longrightarrow> map_of (fs (undo_migrations X argv m0)) p = map_of (fs m0) p)
   \<and> (\<forall>app \<in> set (for_words (django_apps_at X m0)).
         \<not> (([app, ''migrations''], Dir) \<in> set (fs (snd (looked_up X m0)))
            \<and> is_file (fs (snd (looked_up X m0))) [app, ''migrations'', ''__init__.py'']
            \<and> \<not> is_file (fs (snd (looked_up X m0))) [app, ''migrations'', ''settings.py'']))"
proof -
  have frame: "map_of (fs (undo_migrations X argv m0)) p = map_of (fs m0) p"
    if k: "keeps X p" and db: "p \<noteq> [''db.sqlite3'']" and log: "p \<noteq> [''error.log'']"
      and own: "\<forall>app \<in> set (for_words (my_apps_at X m0)). \<not> prefix [app, ''migrations''] p"
      and oth: "\<forall>app \<in> set (for_words (django_apps_at X m0)). \<not> prefix [app, ''migrations''] p"
    unfolding undo_migrations_phases
    by (simp add: fs_echo exec_keeps keeps_rm_plain[OF log] redo_phase_keeps[OF k]
        undo_all_keeps[OF k oth] owned_phase_keeps[OF k own] fs_find_apps
        looked_up_keeps[OF k db])
  show ?thesis
    using frame django_word_no_package by blast
qed

theorem deletes_only_its_targets_witness:
  "plain_names (my_apps_at (quiet_ext listing_shop) (start fs_shop ()))
   \<and> for_words (django_apps_at (quiet_ext listing_shop) (start fs_shop ())) = [''auth'', ''shop'']
   \<and> \<not> is_file fs_shop [''shop'', ''migrations'', ''__init__.py'']
   \<and> map_of (fs (undo_migrations (quiet_ext listing_shop) [''--redo''] (start fs_shop ())))
       [''.venv'', ''auth'', ''migrations'', ''0001_initial.py'']
     = Some (File ''# auth'')"
proof -
  let ?p = "[''.venv'', ''auth'', ''migrations'', ''0001_initial.py'']"
  have a: "plain_names (my_apps_at (quiet_ext listing_shop) (start fs_shop ()))"
    by code_simp
  have b: "for_words (my_apps_at (quiet_ext listing_shop) (start fs_shop ())) = [''blog'']"
    by code_simp
  have c: "for_words (django_apps_at (quiet_ext listing_shop) (start fs_shop ())) = [''auth'', ''shop'']"
    by code_simp
  have d: "\<not> is_file fs_shop [''shop'', ''migrations'', ''__init__.py'']"
    by code_simp
  have "map_of (fs (undo_migrations (quiet_ext listing_shop) [''--redo''] (start fs_shop ()))) ?p
        = map_of (fs (start fs_shop ())) ?p"
    using a deletes_only_its_targets
      [of "quiet_ext listing_shop" "start fs_shop ()" ?p "[''--redo'']"]
    by (simp add: quiet_keeps b c)
  then show ?thesis using a c d by (simp add: start_def fs_shop_def)
qed

subsection \<open>Running twice\<close>

text \<open>
  Three applications: \<open>blog\<close> is a package; \<open>core\<close> is owned only through its migration
  package; \<open>scores\<close> is not owned and has a migration directory in the project tree. The
  name \<open>scores\<close> contains the name \<open>core\<close>.
\<close>

definition fs_scores :: filesystem where
  "fs_scores =
     [([''blog''], Dir),
      ([''blog'', ''__init__.py''], File []),
      ([''core''], Dir),
      ([''core'', ''migrations''], Dir),
      ([''core'', ''migrations'', ''__init__.py''], File []),
      ([''core'', ''migrations'', ''0001_initial.py''], File []),
      ([''scores''], Dir),
      ([''scores'', ''migrations''], Dir),
      ([''scores'', ''migrations'', ''0001_initial.py''], File [])]"

definition listing_scores :: "string list" where
  "listing_scores =
     [''blog'', '' (no migrations)'', ''core'', '' [ ] 0001_initial'', ''scores'', '' (no migrations)'']"

text \<open>
  Claim C5 at this state, without the flag. In the first run \<open>core\<close> is owned, the pattern
  \<open>core\<close> also strikes \<open>scores\<close> from the other applications, and \<open>scores/migrations\<close> stays.
  The first run deletes \<open>core/migrations\<close>, so in the second run \<open>core\<close> is not owned any
  more, \<open>scores\<close> is among the other applications, and its migration directory is deleted:
  the second run does not leave the files as the first did.
\<close>

theorem second_run_deletes_more:
  "fs (undo_migrations (quiet_ext listing_scores) [] (start fs_scores ()))
     = [([''blog''], Dir), ([''blog'', ''__init__.py''], File []), ([''core''], Dir),
        ([''scores''], Dir), ([''scores'', ''migrations''], Dir),
        ([''scores'', ''migrations'', ''0001_initial.py''], File [])]
   \<and> fs (undo_migrations (quiet_ext listing_scores) []
          (undo_migrations (quiet_ext listing_scores) [] (start fs_scores ())))
     = [([''blog''], Dir), ([''blog'', ''__init__.py''], File []), ([''core''], Dir),
        ([''scores''], Dir)]"
  by code_simp

section \<open>The framework's commands\<close>

text \<open>
  Modelled from the spec: \<open>manage.py\<close> and \<open>create_superuser.py\<close>, the framework's management
  interface, are not among the repository's files here. The specification names what the
  commands do: they show, apply and unwind migrations, regenerate migration files and create
  a privileged account, and the migration records are kept in the framework's own tracking
  table. The framework knows a list of applications. A migration of an application is either
  delivered with the framework (kept outside the project directory) or a file in the
  application's \<open>migrations\<close> directory in the project. The tracking table lists the applied
  migrations.
\<close>

record framework =
  installed :: "string list"
  shipped :: "(string \<times> string) list"
  applied :: "(string \<times> string) list"
  superuser :: bool

text \<open>
  Modelled from the spec: the migrations the framework finds (\<open>manage.py\<close> is not among the
  files here). A regular file \<open>app/migrations/name\<close> in the project is a migration of
  \<open>app\<close>, the package marker \<open>__init__.py\<close> apart.
\<close>

fun migration_file :: "string \<Rightarrow> path \<times> node \<Rightarrow> string list" where
  "migration_file a ([b, d, name], File text) =
     (if b = a \<and> d = ''migrations'' \<and> name \<noteq> ''__init__.py'' then [name] else [])"
| "migration_file a other = []"

definition project_migrations :: "filesystem \<Rightarrow> string \<Rightarrow> string list" where
  "project_migrations f a = concat (map (migration_file a) f)"

text \<open>
  Modelled from the spec: all migrations of an application, those delivered with the
  framework first; the migrations known for the applications of the framework; and the
  pending ones, which are the known ones that the tracking table does not list.
\<close>

definition migrations_of :: "filesystem \<Rightarrow> framework \<Rightarrow> string \<Rightarrow> string list" where
  "migrations_of f w a = map snd (filter (\<lambda>(b, n). b = a) (shipped w)) @ project_migrations f a"

definition known :: "filesystem \<Rightarrow> framework \<Rightarrow> (string \<times> string) list" where
  "known f w = concat (map (\<lambda>a. map (Pair a) (migrations_of f w a)) (installed w))"

definition pending :: "filesystem \<Rightarrow> framework \<Rightarrow> (string \<times> string) list" where
  "pending f w = filter (\<lambda>m. m \<notin> set (applied w)) (known f w)"

text \<open>
  Modelled from the spec: the command that shows migrations. It prints each application
  known to the framework on a line of its own, followed by one indented line for each of its
  migrations, marked as applied or not.
\<close>

definition status_lines :: "filesystem \<Rightarrow> framework \<Rightarrow> string \<Rightarrow> string list" where
  "status_lines f w a =
     (case migrations_of f w a of
        [] \<Rightarrow> ['' (no migrations)'']
      | ns \<Rightarrow> map (\<lambda>n. (if (a, n) \<in> set (applied w) then '' [X] '' else '' [ ] '') @ n) ns)"

text \<open>
  Modelled from the spec: the output of \<open>manage.py showmigrations\<close> (not among the files
  here), which changes nothing.
\<close>

definition fw_showmigrations ::
  "filesystem \<times> framework \<Rightarrow> string list \<times> filesystem \<times> framework" where
  "fw_showmigrations = (\<lambda>(f, w). (concat (map (\<lambda>a. a # status_lines f w a) (installed w)), f, w))"

text \<open>
  Modelled from the spec: the command that unwinds the migrations of one application. It
  takes the application's records out of the tracking table. When there is none it reports
  an error and changes nothing.
\<close>

definition fw_migrate_zero :: "string \<Rightarrow> framework command" where
  "fw_migrate_zero a = (\<lambda>(f, w).
     if list_ex (\<lambda>(b, n). b = a) (applied w)
     then (0, f, w\<lparr>applied := filter (\<lambda>(b, n). b \<noteq> a) (applied w)\<rparr>)
     else (1, f, w))"

text \<open>
  Modelled from the spec: the command that regenerates migration files. For each named
  application it writes what is missing of a migration directory with a first migration;
  it refuses a name the framework does not know.
\<close>

definition initial_files :: "string \<Rightarrow> filesystem" where
  "initial_files a =
     [([a, ''migrations''], Dir),
      ([a, ''migrations'', ''__init__.py''], File []),
      ([a, ''migrations'', ''0001_initial.py''], File [])]"

text \<open>
  Modelled from the spec: writing files where nothing is yet (part of the regeneration
  below).
\<close>

definition write_missing :: "filesystem \<Rightarrow> filesystem \<Rightarrow> filesystem" where
  "write_missing new f = f @ filter (\<lambda>(p, n). map_of f p = None) new"

text \<open>
  Modelled from the spec: \<open>manage.py makemigrations\<close> with the named applications (not among
  the files here).
\<close>

definition fw_makemigrations :: "string list \<Rightarrow> framework command" where
  "fw_makemigrations apps = (\<lambda>(f, w).
     if list_all (\<lambda>a. a \<in> set (installed w)) apps
     then (0, fold (\<lambda>a. write_missing (initial_files a)) apps f, w)
     else (2, f, w))"

text \<open>
  Modelled from the spec: \<open>manage.py migrate\<close> (not among the files here), the command that
  applies all pending migrations.
\<close>

definition fw_migrate :: "framework command" where
  "fw_migrate = (\<lambda>(f, w). (0, f, w\<lparr>applied := applied w @ pending f w\<rparr>))"

text \<open>
  Modelled from the spec: \<open>create_superuser.py\<close> (not among the files here), which provisions
  the superuser account; it fails when the account exists already.
\<close>

definition fw_create_superuser :: "framework command" where
  "fw_create_superuser =
     (\<lambda>(f, w). if superuser w then (1, f, w) else (0, f, w\<lparr>superuser := True\<rparr>))"

text \<open>
  Modelled from the spec: the framework's commands together, as the environment of the
  script. Sourcing \<open>.env\<close> changes nothing the commands above look at.
\<close>

definition framework_ext :: "framework ext" where
  "framework_ext =
     \<lparr>source_env = (\<lambda>(f, w). (0, f, w)),
      showmigrations = fw_showmigrations,
      migrate_zero = fw_migrate_zero,
      makemigrations = fw_makemigrations,
      migrate = fw_migrate,
      create_superuser = fw_create_superuser\<rparr>"

text \<open>A framework state for the project \<open>fs_shop\<close>, with two migrations pending.\<close>

definition fw_shop :: framework where
  "fw_shop =
     \<lparr>installed = [''auth'', ''blog'', ''shop''],
      shipped = [(''auth'', ''0001_initial''), (''auth'', ''0002_alter_user'')],
      applied = [(''auth'', ''0001_initial'')],
      superuser = False\<rparr>"

subsection \<open>After a redo\<close>

lemma known_applied_update: "known f (w\<lparr>applied := x\<rparr>) = known f w"
  by (simp add: known_def migrations_of_def)

lemma known_superuser_update: "known f (w\<lparr>superuser := x\<rparr>) = known f w"
  by (simp add: known_def migrations_of_def)

lemma pending_after_migrate: "pending f (w\<lparr>applied := applied w @ pending f w\<rparr>) = []"
  by (auto simp: pending_def known_applied_update filter_empty_conv)

lemma pending_superuser_update: "pending f (w\<lparr>superuser := x\<rparr>) = pending f w"
  by (simp add: pending_def known_superuser_update)

lemma concat_map_filter_irrelevant:
  "(\<And>x. x \<in> set xs \<Longrightarrow> \<not> P x \<Longrightarrow> g x = []) \<Longrightarrow> concat (map g (filter P xs)) = concat (map g xs)"
  by (induction xs) auto

lemma migration_file_short: "length p \<noteq> 3 \<Longrightarrow> migration_file a (p, n) = []"
  by (cases "(a, (p, n))" rule: migration_file.cases) auto

lemma project_migrations_remove_entry:
  "length p \<noteq> 3 \<Longrightarrow> project_migrations (remove_entry p f) a = project_migrations f a"
  unfolding project_migrations_def remove_entry_def
  by (rule concat_map_filter_irrelevant) (auto simp: migration_file_short)

lemma pending_rm_error_log:
  "pending (snd (rm_plain [''error.log''] f)) w = pending f w"
  by (simp add: rm_plain_def pending_def known_def migrations_of_def project_migrations_remove_entry)

lemma pending_after_create_superuser:
  "pending f w = [] \<Longrightarrow> fw_create_superuser (f, w) = (st, f', w') \<Longrightarrow> pending f' w' = []"
  by (auto simp: fw_create_superuser_def pending_superuser_update split: if_splits)

lemma fs_exec: "fs (exec e c m) = fst (snd (c (fs m, world m)))"
  by (simp add: exec_def split: prod.splits)

lemma world_exec: "world (exec e c m) = snd (snd (c (fs m, world m)))"
  by (simp add: exec_def split: prod.splits)

lemma migrate_nothing_pending:
  "pending (fs (exec e fw_migrate m)) (world (exec e fw_migrate m)) = []"
  by (simp add: fs_exec world_exec fw_migrate_def pending_after_migrate)

lemma create_superuser_nothing_pending:
  assumes "pending (fs m) (world m) = []"
  shows "pending (fs (exec e fw_create_superuser m)) (world (exec e fw_create_superuser m)) = []"
proof -
  obtain st f' w' where r: "fw_create_superuser (fs m, world m) = (st, f', w')"
    by (cases "fw_create_superuser (fs m, world m)") auto
  from pending_after_create_superuser[OF assms r] show ?thesis
    by (simp add: fs_exec world_exec r)
qed

lemma redo_phase_nothing_pending:
  "pending (fs (redo_phase framework_ext True m)) (world (redo_phase framework_ext True m)) = []"
proof -
  have "pending (fs (echo ''Creating super superuser...'' (echo [] (exec Migrate fw_migrate m))))
          (world (echo ''Creating super superuser...'' (echo [] (exec Migrate fw_migrate m)))) = []"
    by (simp add: fs_echo world_echo migrate_nothing_pending)
  then show ?thesis
    by (simp add: redo_phase_def framework_ext_def fs_echo world_echo
        create_superuser_nothing_pending)
qed

lemma status_all_applied:
  assumes "pending f w = []" "a \<in> set (installed w)" "l \<in> set (status_lines f w a)"
  shows "l = '' (no migrations)'' \<or> prefix '' [X] '' l"
proof (cases "migrations_of f w a")
  case Nil
  with assms(3) show ?thesis by (simp add: status_lines_def)
next
  case (Cons n ns)
  with assms(3) obtain k where k: "k \<in> set (migrations_of f w a)"
    and l: "l = (if (a, k) \<in> set (applied w) then '' [X] '' else '' [ ] '') @ k"
    by (auto simp: status_lines_def)
  from k assms(2) have "(a, k) \<in> set (known f w)"
    by (auto simp: known_def)
  with assms(1) have "(a, k) \<in> set (applied w)"
    by (auto simp: pending_def filter_empty_conv)
  with l show ?thesis by simp
qed


lemma redo_nothing_pending:
  assumes "redo_requested argv"
  shows "pending (fs (undo_migrations framework_ext argv m0))
           (world (undo_migrations framework_ext argv m0)) = []"
proof -
  let ?m6 = "undo_all framework_ext (django_apps_at framework_ext m0)
               (owned_phase framework_ext True (my_apps_at framework_ext m0)
                  (snd (find_apps (snd (looked_up framework_ext m0)))))"
  let ?m7 = "redo_phase framework_ext True ?m6"
  have 7: "pending (fs ?m7) (world ?m7) = []"
    by (rule redo_phase_nothing_pending)
  let ?m8 = "exec Rm_error_log (on_files (rm_plain [''error.log''])) ?m7"
  have fs8: "fs ?m8 = snd (rm_plain [''error.log''] (fs ?m7))" and w8: "world ?m8 = world ?m7"
    by (simp_all add: fs_exec world_exec on_files_def split: prod.splits)
  have 8: "pending (fs ?m8) (world ?m8) = []"
    unfolding fs8 w8 using 7 by (simp add: pending_rm_error_log)
  show ?thesis
    using assms 8 unfolding undo_migrations_phases by (simp add: fs_echo world_echo)
qed

text \<open>
  Claim C6. After a complete run with \<open>--redo\<close>, from any starting state, no migration known to
  the framework is pending, and the status check marks every migration it lists as applied.
\<close>

theorem redo_leaves_nothing_pending:
  assumes "redo_requested argv"
  shows "pending (fs (undo_migrations framework_ext argv m0))
           (world (undo_migrations framework_ext argv m0)) = []
       \<and> (\<forall>a \<in> set (installed (world (undo_migrations framework_ext argv m0))).
            \<forall>l \<in> set (status_lines (fs (undo_migrations framework_ext argv m0))
                          (world (undo_migrations framework_ext argv m0)) a).
              l = '' (no migrations)'' \<or> prefix '' [X] '' l)"
  using redo_nothing_pending[OF assms] status_all_applied by blast

theorem redo_leaves_nothing_pending_witness:
  "redo_requested [''--redo'']
   \<and> pending fs_shop fw_shop = [(''auth'', ''0002_alter_user''), (''shop'', ''0001_initial.py'')]
   \<and> pending (fs (undo_migrations framework_ext [''--redo''] (start fs_shop fw_shop)))
        (world (undo_migrations framework_ext [''--redo''] (start fs_shop fw_shop))) = []"
proof -
  have a: "redo_requested [''--redo'']"
    by (simp add: redo_requested_def)
  have b: "pending fs_shop fw_shop = [(''auth'', ''0002_alter_user''), (''shop'', ''0001_initial.py'')]"
    by code_simp
  show ?thesis
    using a b redo_leaves_nothing_pending[OF a, of "start fs_shop fw_shop"] by simp
qed

subsection \<open>Absent targets\<close>






subsection \<open>What a run brings about\<close>

text \<open>
  A property of the files and the world is preserved by a command when it holds after the
  command wherever it held before. \<open>invoked_preserve\<close> says so of the commands a run calls:
  the sourcing of \<open>.env\<close>, the listing, every unwinding and, with \<open>--redo\<close> only, the
  regeneration for the owned applications, the application of migrations and the
  provisioning of the superuser. A property is stable when taking entries away from the
  files cannot undo it.
\<close>

definition preserves :: "(filesystem \<times> 'x \<Rightarrow> bool) \<Rightarrow> 'x command \<Rightarrow> bool" where
  "preserves P c = (\<forall>s. P s \<longrightarrow> P (snd (c s)))"


definition stable :: "(filesystem \<times> 'x \<Rightarrow> bool) \<Rightarrow> bool" where
  "stable P = (\<forall>K f w. P (f, w) \<longrightarrow> P (filter (\<lambda>(p, n). K p) f, w))"






lemma stableD:
  assumes "stable P" "P (f, w)"
  shows "P (filter (\<lambda>(p, n). K p) f, w)"
proof -
  from assms(1) have "\<forall>f w. P (f, w) \<longrightarrow> P (filter (\<lambda>(p, n). K p) f, w)"
    unfolding stable_def by (rule spec)
  then have "P (f, w) \<longrightarrow> P (filter (\<lambda>(p, n). K p) f, w)"
    by (elim allE)
  with assms(2) show ?thesis by (rule rev_mp)
qed

lemma stable_remove_entry:
  assumes "stable P" "P (f, w)"
  shows "P (remove_entry q f, w)"
  using stableD[OF assms, of "\<lambda>p. p \<noteq> q"] by (simp add: remove_entry_def)


lemma snd_on_files: "snd (on_files c (f, w)) = (snd (c f), w)"
  by (simp add: on_files_def split: prod.splits)

lemma preserves_on_files:
  assumes "\<And>f w. P (f, w) \<Longrightarrow> P (snd (c f), w)"
  shows "preserves P (on_files c)"
  unfolding preserves_def
proof (intro allI impI)
  fix s :: "filesystem \<times> 'a"
  assume p: "P s"
  obtain f w where s: "s = (f, w)" by (cases s)
  from p have "P (f, w)" unfolding s .
  then have "P (snd (c f), w)" by (rule assms)
  then show "P (snd (on_files c s))" unfolding s snd_on_files .
qed

lemma preserves_rm_f:
  assumes "stable P"
  shows "preserves P (on_files (rm_f q))"
proof (rule preserves_on_files)
  fix f w
  assume p: "P (f, w)"
  have "snd (rm_f q f) = f \<or> snd (rm_f q f) = remove_entry q f"
    by (simp add: rm_f_def)
  then show "P (snd (rm_f q f), w)"
    using p stable_remove_entry[OF assms p, of q] by auto
qed







































end
